theory Spec2Isabelle
  imports Complex_Main "HOL-Library.Char_ord" "HOL-Library.List_Lexorder"
begin

section \<open>The CRD documentation server: data model\<close>

text \<open>
  The handler \<^verbatim>\<open>doc\<close> of \<^verbatim>\<open>cmd/doc/main.go\<close> decodes a
  \<^verbatim>\<open>apiextensions.CustomResourceDefinition\<close>, picks the validation schema to
  document and executes the template \<^verbatim>\<open>doc.html\<close> on it. The types come from
  the Kubernetes library; the model keeps the fields that the handler and the template read.
\<close>

text \<open>
  \<^verbatim>\<open>JSON\<close> values of an \<^verbatim>\<open>enum\<close> are kept as their printed text, and
  \<^verbatim>\<open>*float64\<close> bounds as optional rationals (every finite float is one).
\<close>

type_synonym JSON = string

text \<open>
  \<^verbatim>\<open>JSONSchemaProps\<close>. \<^verbatim>\<open>Properties\<close> is a Go map, written as an association
  list: a listing of its entries in some order, no key twice (a nil map and an empty map
  are both the empty list, and the template does not tell them apart).
  \<^verbatim>\<open>AdditionalProperties\<close> and \<^verbatim>\<open>Items\<close> are pointers, hence options.
  The field \<^verbatim>\<open>Schema\<close> of \<^verbatim>\<open>JSONSchemaPropsOrBool\<close> is \<open>BoolSchema\<close> here and
  that of \<^verbatim>\<open>JSONSchemaPropsOrArray\<close> is \<open>ArraySchema\<close>, since a selector name
  can be used once.
\<close>

datatype JSONSchemaProps = JSONSchemaProps
    (Description: string)
    (Type: string)
    (Required: "string list")
    (Enum: "JSON list")
    (Minimum: "rat option")
    (Maximum: "rat option")
    (Properties: "(string \<times> JSONSchemaProps) list")
    (AdditionalProperties: "JSONSchemaPropsOrBool option")
    (Items: "JSONSchemaPropsOrArray option")
and JSONSchemaPropsOrBool = JSONSchemaPropsOrBool
    (Allows: bool)
    (BoolSchema: "JSONSchemaProps option")
and JSONSchemaPropsOrArray = JSONSchemaPropsOrArray
    (ArraySchema: "JSONSchemaProps option")
    (JSONSchemas: "JSONSchemaProps list")

record CustomResourceValidation =
  OpenAPIV3Schema :: "JSONSchemaProps option"

record CustomResourceDefinitionVersion =
  Name :: string
  Served :: bool
  Storage :: bool
  Schema :: "CustomResourceValidation option"

text \<open>\<^verbatim>\<open>crd.Spec\<close>, with \<^verbatim>\<open>Names.Kind\<close> as \<open>Kind\<close>.\<close>

record CustomResourceDefinition =
  Group :: string
  Version :: string
  Kind :: string
  Validation :: "CustomResourceValidation option"
  Versions :: "CustomResourceDefinitionVersion list"

section \<open>The template doc.html\<close>

text \<open>
  What the template writes, as a tree: one \<open>Panel\<close> for each collapsible
  \<^verbatim>\<open><div class="panel panel-default">\<close>, with the key shown in its heading, the
  anchor id of its body and the elements of its \<^verbatim>\<open>panel-body\<close> in document order.
  The three "Permitted Values" paragraphs (enum, minimum, maximum) carry the same label in
  the source and are kept apart here by what they print.
\<close>

datatype html =
    Panel string string "html list"
  | Paragraph string
  | TypeLabel string
  | RequiredFields "string list"
  | PermittedEnum "JSON list"
  | PermittedMinimum rat
  | PermittedMaximum rat
  | AdditionalPropertiesAllowed

text \<open>
  The one way in which the execution of this template stops with an error:
  \<^verbatim>\<open>gt ($value.Items.JSONSchemas) 0\<close> on line 318 compares a slice with a number, and
  \<^verbatim>\<open>gt\<close> of text/template answers "invalid type for comparison" (the sibling
  conditions compare \<^verbatim>\<open>len\<close> of the value). An error ends the execution; what was
  written to the response before it is not kept. The limit of text/template on nested
  template calls (100000) is out of reach of a decoded definition, which encoding/json
  refuses long before it nests so far, and is not part of the model.
\<close>

datatype exec_error = BadComparisonType

text \<open>
  \<^verbatim>\<open>genRand\<close> is \<^verbatim>\<open>rand.String(10)\<close> of the Kubernetes library, a draw from the
  process-wide random source. The model takes the source as the sequence of strings that
  its successive calls return, and threads the number of calls made so far: every function
  of the template takes that number (\<open>n\<close>) and returns it updated.
\<close>

type_synonym 'a exec = "exec_error + 'a \<times> nat"

text \<open>
  Lines 275 to 293 of one iteration: description, type, and the paragraphs for
  \<^verbatim>\<open>Required\<close>, \<^verbatim>\<open>Enum\<close>, \<^verbatim>\<open>Minimum\<close> and \<^verbatim>\<open>Maximum\<close>. A slice is true
  in a template when it is not empty, a pointer when it is not nil.
\<close>

definition scalars :: "JSONSchemaProps \<Rightarrow> html list" where
  "scalars v =
     [Paragraph (Description v), TypeLabel (Type v)]
     @ (if length (Required v) > 0 then [RequiredFields (Required v)] else [])
     @ (if Enum v \<noteq> [] then [PermittedEnum (Enum v)] else [])
     @ (case Minimum v of None \<Rightarrow> [] | Some x \<Rightarrow> [PermittedMinimum x])
     @ (case Maximum v of None \<Rightarrow> [] | Some x \<Rightarrow> [PermittedMaximum x])"

lemma size_list_insort_key:
  "size_list f (insort_key k x xs) = Suc (f x + size_list f xs)"
  by (induction xs) auto

lemma size_list_sort_key: "size_list f (sort_key k xs) = size_list f xs"
  by (induction xs) (auto simp: size_list_insort_key)

lemma size_Properties: "size_list (size_prod (\<lambda>_. 0) size) (Properties v) < size v"
  by (cases v) simp

lemma size_BoolSchema:
  "AdditionalProperties v = Some ap \<Longrightarrow> BoolSchema ap = Some s \<Longrightarrow> size s < size v"
  by (cases v; cases ap) auto

lemma size_ArraySchema:
  "Items v = Some it \<Longrightarrow> ArraySchema it = Some s \<Longrightarrow> size s < size v"
  by (cases v; cases it) auto

text \<open>
  The template \<^verbatim>\<open>field\<close> (lines 264 to 327), one function for each of its blocks:
  \<^item> \<open>field\<close>: \<^verbatim>\<open>range $key, $value := .\<close> over a map; text/template visits a map
    with string keys in sorted key order, whatever the order of the Go map;
  \<^item> \<open>range_loop\<close>: the iterations, in that order;
  \<^item> \<open>iteration\<close>: one panel: \<^verbatim>\<open>$randID := genRand\<close>, the scalars, then the three
    blocks below, each appended to the panel body;
  \<^item> \<open>properties\<close>: \<^verbatim>\<open>if gt (len X.Properties) 0\<close> then \<^verbatim>\<open>template "field"\<close> on
    them (lines 294 to 296, and again for a nested schema on
    lines 304 to 306 and 313 to 315);
  \<^item> \<open>additionalProperties\<close>: lines 297 to 308;
  \<^item> \<open>items\<close>: lines 309 to 322; the call of \<^verbatim>\<open>field\<close> on line 319 is never
    reached, the comparison before it fails for every non-empty list;
  \<^item> \<open>inline_schema\<close>: description, type and properties of a nested schema, written into
    the body of the enclosing panel (lines 302 to 306 and 311 to 315).
\<close>

function
  field :: "(nat \<Rightarrow> string) \<Rightarrow> nat \<Rightarrow> (string \<times> JSONSchemaProps) list \<Rightarrow> html list exec"
  and range_loop ::
    "(nat \<Rightarrow> string) \<Rightarrow> nat \<Rightarrow> (string \<times> JSONSchemaProps) list \<Rightarrow> html list exec"
  and iteration :: "(nat \<Rightarrow> string) \<Rightarrow> nat \<Rightarrow> string \<Rightarrow> JSONSchemaProps \<Rightarrow> html exec"
  and properties :: "(nat \<Rightarrow> string) \<Rightarrow> nat \<Rightarrow> JSONSchemaProps \<Rightarrow> html list exec"
  and additionalProperties ::
    "(nat \<Rightarrow> string) \<Rightarrow> nat \<Rightarrow> JSONSchemaProps \<Rightarrow> html list exec"
  and items :: "(nat \<Rightarrow> string) \<Rightarrow> nat \<Rightarrow> JSONSchemaProps \<Rightarrow> html list exec"
  and inline_schema :: "(nat \<Rightarrow> string) \<Rightarrow> nat \<Rightarrow> JSONSchemaProps \<Rightarrow> html list exec"
where
  "field genRand n m = range_loop genRand n (sort_key fst m)"
| "range_loop genRand n [] = Inr ([], n)"
| "range_loop genRand n ((key, value) # rest) =
     (case iteration genRand n key value of
        Inl e \<Rightarrow> Inl e
      | Inr (panel, n1) \<Rightarrow>
          (case range_loop genRand n1 rest of
             Inl e \<Rightarrow> Inl e
           | Inr (panels, n2) \<Rightarrow> Inr (panel # panels, n2)))"
| "iteration genRand n key value =
     (case properties genRand (Suc n) value of
        Inl e \<Rightarrow> Inl e
      | Inr (props, n1) \<Rightarrow>
          (case additionalProperties genRand n1 value of
             Inl e \<Rightarrow> Inl e
           | Inr (addl, n2) \<Rightarrow>
               (case items genRand n2 value of
                  Inl e \<Rightarrow> Inl e
                | Inr (its, n3) \<Rightarrow>
                    Inr (Panel key (genRand n) (scalars value @ props @ addl @ its), n3))))"
| "properties genRand n s =
     (if length (Properties s) > 0 then field genRand n (Properties s) else Inr ([], n))"
| "additionalProperties genRand n value =
     (case AdditionalProperties value of
        None \<Rightarrow> Inr ([], n)
      | Some ap \<Rightarrow>
          (case (case BoolSchema ap of
                   None \<Rightarrow> Inr ([], n)
                 | Some s \<Rightarrow> inline_schema genRand n s) of
             Inl e \<Rightarrow> Inl e
           | Inr (sub, n1) \<Rightarrow>
               Inr ((if Allows ap then [AdditionalPropertiesAllowed] else []) @ sub, n1)))"
| "items genRand n value =
     (case Items value of
        None \<Rightarrow> Inr ([], n)
      | Some it \<Rightarrow>
          (case (case ArraySchema it of
                   None \<Rightarrow> Inr ([], n)
                 | Some s \<Rightarrow> inline_schema genRand n s) of
             Inl e \<Rightarrow> Inl e
           | Inr (sub, n1) \<Rightarrow>
               if JSONSchemas it \<noteq> [] then Inl BadComparisonType else Inr (sub, n1)))"
| "inline_schema genRand n s =
     (case properties genRand n s of
        Inl e \<Rightarrow> Inl e
      | Inr (sub, n1) \<Rightarrow> Inr ([Paragraph (Description s), TypeLabel (Type s)] @ sub, n1))"
  by pat_completeness auto

text \<open>
  Every call descends into a strictly smaller schema, or stays on the same one and moves
  to a later block: the template returns on every schema.
\<close>

termination
proof (relation "measures
   [\<lambda>x. case x of
      Inl (Inl (_, _, m)) \<Rightarrow> size_list (size_prod (\<lambda>_. 0) size) m
    | Inl (Inr (Inl (_, _, m))) \<Rightarrow> size_list (size_prod (\<lambda>_. 0) size) m
    | Inl (Inr (Inr (_, _, _, v))) \<Rightarrow> size v
    | Inr (Inl (Inl (_, _, s))) \<Rightarrow> size s
    | Inr (Inl (Inr (_, _, v))) \<Rightarrow> size v
    | Inr (Inr (Inl (_, _, v))) \<Rightarrow> size v
    | Inr (Inr (Inr (_, _, s))) \<Rightarrow> size s,
    \<lambda>x. case x of
      Inl (Inl _) \<Rightarrow> 1
    | Inl (Inr (Inl _)) \<Rightarrow> 0
    | Inl (Inr (Inr _)) \<Rightarrow> 2
    | Inr (Inl _) \<Rightarrow> 1
    | Inr (Inr (Inl _)) \<Rightarrow> 1
    | Inr (Inr (Inr _)) \<Rightarrow> 2]")
qed (simp_all add: size_list_sort_key size_Properties size_BoolSchema size_ArraySchema)

lemmas template_simps = field.simps range_loop.simps iteration.simps properties.simps
  additionalProperties.simps items.simps inline_schema.simps

declare template_simps [simp del]

text \<open>
  The page of \<^verbatim>\<open>doc.html\<close> (lines 232 to 262): the headings and,
  when the schema has properties, the template \<^verbatim>\<open>field\<close> on them. The link built
  from the request path is left out. Of the root schema only the description and the
  properties are shown.
\<close>

record page =
  page_Group :: string
  page_Version :: string
  page_Kind :: string
  page_Description :: string
  accordion :: "html list"

definition docTemplate ::
  "(nat \<Rightarrow> string) \<Rightarrow> nat \<Rightarrow> string \<Rightarrow> string \<Rightarrow> string \<Rightarrow> JSONSchemaProps \<Rightarrow> page exec" where
  "docTemplate genRand n grp ver knd schema =
     (case properties genRand n schema of
        Inl e \<Rightarrow> Inl e
      | Inr (panels, n1) \<Rightarrow>
          Inr (\<lparr>page_Group = grp, page_Version = ver, page_Kind = knd,
                page_Description = Description schema, accordion = panels\<rparr>, n1))"

section \<open>Choosing the schema (main.go, lines 176 to 195)\<close>

text \<open>
  The two ways in which the choice of a schema ends the request, named after the
  message written to the response:
  \<^item> \<open>MissingStorageSchema\<close>: "Specified storage version does not have a schema."
  \<^item> \<open>SchemaNotFound\<close>: "Supplied CRD has no schema."

  and the third way in which the handler fails after them: \<open>TemplateFailed\<close>, when
  \<^verbatim>\<open>docTemplate.Execute\<close> returns an error (line 206; the response then ends with the
  text of \<open>SchemaNotFound\<close>).
\<close>

datatype failure = MissingStorageSchema | SchemaNotFound | TemplateFailed exec_error

text \<open>
  The loop of lines 178 to 188 over \<^verbatim>\<open>crd.Spec.Versions\<close>: the first version with
  \<^verbatim>\<open>Storage == true\<close> ends it, by \<^verbatim>\<open>return\<close> when it has no schema and by
  \<^verbatim>\<open>break\<close> otherwise. The second argument is the variable \<^verbatim>\<open>schema\<close>.
\<close>

fun scan_versions ::
  "CustomResourceDefinitionVersion list \<Rightarrow> CustomResourceValidation option
    \<Rightarrow> failure + CustomResourceValidation option" where
  "scan_versions [] schema = Inr schema"
| "scan_versions (version # rest) schema =
     (if Storage version = True then
        (case Schema version of
           None \<Rightarrow> Inl MissingStorageSchema
         | Some s \<Rightarrow> Inr (Some s))
      else scan_versions rest schema)"

text \<open>Lines 176 to 189: \<^verbatim>\<open>schema = crd.Spec.Validation\<close>, then the guarded loop.\<close>

definition select_schema ::
  "CustomResourceDefinition \<Rightarrow> failure + CustomResourceValidation option" where
  "select_schema crd =
     (if length (Versions crd) > 1 then scan_versions (Versions crd) (Validation crd)
      else Inr (Validation crd))"

text \<open>Lines 191 to 195: \<^verbatim>\<open>schema == nil || schema.OpenAPIV3Schema == nil\<close>.\<close>

definition require_schema :: "CustomResourceValidation option \<Rightarrow> failure + JSONSchemaProps" where
  "require_schema schema =
     (case schema of
        None \<Rightarrow> Inl SchemaNotFound
      | Some validation \<Rightarrow>
          (case OpenAPIV3Schema validation of
             None \<Rightarrow> Inl SchemaNotFound
           | Some props \<Rightarrow> Inr props))"

definition resolve :: "CustomResourceDefinition \<Rightarrow> failure + JSONSchemaProps" where
  "resolve crd =
     (case select_schema crd of
        Inl e \<Rightarrow> Inl e
      | Inr schema \<Rightarrow> require_schema schema)"

text \<open>
  The handler from line 176 on, for a decoded definition: the schema is chosen and the
  page is written. What comes before (the request path, the cache, the decoding) is the
  caller's; the state of the random source after the request is not returned.
\<close>

definition doc :: "(nat \<Rightarrow> string) \<Rightarrow> nat \<Rightarrow> CustomResourceDefinition \<Rightarrow> failure + page" where
  "doc genRand n crd =
     (case resolve crd of
        Inl e \<Rightarrow> Inl e
      | Inr schema \<Rightarrow>
          (case docTemplate genRand n (Group crd) (Version crd) (Kind crd) schema of
             Inl e \<Rightarrow> Inl (TemplateFailed e)
           | Inr (pg, n1) \<Rightarrow> Inr pg))"

text \<open>
  Two definitions differ only in the served flags of their versions: the other fields
  agree, and so do the version lists once every served flag is cleared.
\<close>

definition same_but_served :: "CustomResourceDefinition \<Rightarrow> CustomResourceDefinition \<Rightarrow> bool" where
  "same_but_served crd crd' =
     (Group crd = Group crd' \<and> Version crd = Version crd' \<and> Kind crd = Kind crd' \<and>
      Validation crd = Validation crd' \<and>
      map (\<lambda>v. v\<lparr>Served := False\<rparr>) (Versions crd) =
      map (\<lambda>v. v\<lparr>Served := False\<rparr>) (Versions crd'))"

section \<open>Reading the output\<close>

text \<open>The anchor ids of a tree in document order, and the tree with its ids blanked.\<close>

fun ids :: "html \<Rightarrow> string list" where
  "ids (Panel key randID body) = randID # concat (map ids body)"
| "ids other = []"

fun erase_ids :: "html \<Rightarrow> html" where
  "erase_ids (Panel key randID body) = Panel key [] (map erase_ids body)"
| "erase_ids other = other"

fun is_Panel :: "html \<Rightarrow> bool" where
  "is_Panel (Panel key randID body) = True"
| "is_Panel other = False"

fun panel_key :: "html \<Rightarrow> string" where
  "panel_key (Panel key randID body) = key"
| "panel_key other = []"



text \<open>The anchor ids of a list of elements, and an outcome with the ids blanked.\<close>

definition panel_ids :: "html list \<Rightarrow> string list" where
  "panel_ids out = concat (map ids out)"

text \<open>
  An execution that started after \<open>n\<close> draws and succeeded has made the draws from
  \<open>n\<close> on, one for each id of its output, in order.
\<close>

definition draws :: "(nat \<Rightarrow> string) \<Rightarrow> nat \<Rightarrow> html list exec \<Rightarrow> bool" where
  "draws g n r =
     (case r of Inl e \<Rightarrow> True
      | Inr (out, n') \<Rightarrow> n \<le> n' \<and> panel_ids out = map g [n..<n'])"

definition shape :: "html list exec \<Rightarrow> exec_error + html list" where
  "shape r = map_sum id (\<lambda>(out, n'). map erase_ids out) r"

definition shape1 :: "html exec \<Rightarrow> exec_error + html" where
  "shape1 r = map_sum id (\<lambda>(p, n'). erase_ids p) r"

section \<open>Sample inputs\<close>

text \<open>
  Small definitions and schemas for the closed statements below: an object schema that
  only has a description, a validation holding a schema, a served version, a definition
  of the kind Widget, and one run of the random source (ten letters of the alphabet of
  \<^verbatim>\<open>rand.String\<close>, the last one counting the calls).
\<close>

definition described :: "string \<Rightarrow> JSONSchemaProps" where
  "described d = JSONSchemaProps d ''object'' [] [] None None [] None None"

definition typed :: "string \<Rightarrow> JSONSchemaProps" where
  "typed t = JSONSchemaProps [] t [] [] None None [] None None"

definition object :: "(string \<times> JSONSchemaProps) list \<Rightarrow> JSONSchemaProps" where
  "object ps = JSONSchemaProps [] ''object'' [] [] None None ps None None"

definition validation :: "JSONSchemaProps \<Rightarrow> CustomResourceValidation option" where
  "validation s = Some \<lparr>OpenAPIV3Schema = Some s\<rparr>"

definition version ::
  "string \<Rightarrow> bool \<Rightarrow> CustomResourceValidation option \<Rightarrow> CustomResourceDefinitionVersion" where
  "version name storage schema = \<lparr>Name = name, Served = True, Storage = storage, Schema = schema\<rparr>"

definition widget ::
  "CustomResourceValidation option \<Rightarrow> CustomResourceDefinitionVersion list
    \<Rightarrow> CustomResourceDefinition" where
  "widget toplevel vs =
     \<lparr>Group = ''example.com'', Version = ''v1'', Kind = ''Widget'', Validation = toplevel,
      Versions = vs\<rparr>"

definition sample_genRand :: "nat \<Rightarrow> string" where
  "sample_genRand i = ''bcdfghjkl'' @ [''bcdfghjklmnpqrstvwxz2456789'' ! (i mod 27)]"


section \<open>Facts about the choice of the schema\<close>

lemma scan_versions_none:
  "list_all (\<lambda>v. \<not> Storage v) vs \<Longrightarrow> scan_versions vs schema = Inr schema"
  by (induction vs) auto

lemma scan_versions_find:
  "find Storage vs = Some v \<Longrightarrow>
   scan_versions vs schema =
     (case Schema v of None \<Rightarrow> Inl MissingStorageSchema | Some s \<Rightarrow> Inr (Some s))"
  by (induction vs) (auto split: if_splits)

lemma find_Storage_append:
  "list_all (\<lambda>u. \<not> Storage u) pre \<Longrightarrow> Storage v \<Longrightarrow> find Storage (pre @ v # post) = Some v"
  by (induction pre) auto

lemma scan_versions_Served:
  "scan_versions (map (Served_update f) vs) schema = scan_versions vs schema"
  by (induction vs) auto

lemma scan_versions_same_but_served:
  "map (\<lambda>v. v\<lparr>Served := False\<rparr>) vs = map (\<lambda>v. v\<lparr>Served := False\<rparr>) ws \<Longrightarrow>
   length vs = length ws \<and> scan_versions vs schema = scan_versions ws schema"
  by (metis length_map scan_versions_Served)

subsection \<open>C1: more than one version\<close>

text \<open>
  C1 as stated: with more than one version and none of them the storage version,
  resolution fails with NoStorageVersion and documents no schema; and an entry with
  \<open>Storage\<close> set and a schema present has its schema resolved. The handler has no such
  failure. With two versions and no storage version the loop leaves \<^verbatim>\<open>schema\<close> at
  the top-level validation, which is documented; and of two storage versions the second
  one, although it has a schema, is not the one resolved.
\<close>

theorem resolve_no_storage_counterexample:
  "resolve (widget (validation (described ''top''))
      [version ''v1'' False (validation (described ''one'')),
       version ''v2'' False (validation (described ''two''))]) = Inr (described ''top'') \<and>
   resolve (widget None
      [version ''v1'' True (validation (described ''one'')),
       version ''v2'' True (validation (described ''two''))]) = Inr (described ''one'') \<and>
   described ''one'' \<noteq> described ''two''"
  by (simp add: resolve_def select_schema_def require_schema_def widget_def version_def
      validation_def described_def)

text \<open>
  C1, amended: with more than one version and no storage version, the outcome is that of
  the top-level validation schema (documented when it and its OpenAPI schema are present,
  \<open>SchemaNotFound\<close> otherwise); and when the first version with \<open>Storage\<close> set has a
  schema, that schema is the one selected, with the same final check.
\<close>

theorem resolve_storage_scan:
  "(1 < length (Versions crd) \<and> list_all (\<lambda>v. \<not> Storage v) (Versions crd) \<longrightarrow>
      resolve crd = require_schema (Validation crd)) \<and>
   (1 < length (Versions crd) \<and> find Storage (Versions crd) = Some v \<and> Schema v = Some s \<longrightarrow>
      select_schema crd = Inr (Some s) \<and> resolve crd = require_schema (Some s))"
  by (simp add: resolve_def select_schema_def scan_versions_find scan_versions_none)

theorem resolve_storage_scan_witness:
  "1 < length [version ''v1'' False None, version ''v2'' False None] \<and>
   list_all (\<lambda>v. \<not> Storage v) [version ''v1'' False None, version ''v2'' False None] \<and>
   resolve (widget (validation (typed ''object''))
      [version ''v1'' False None, version ''v2'' False None]) = Inr (typed ''object'') \<and>
   find Storage [version ''v1'' False None, version ''v2'' True (validation (typed ''object''))]
     = Some (version ''v2'' True (validation (typed ''object''))) \<and>
   resolve (widget None
      [version ''v1'' False None, version ''v2'' True (validation (typed ''object''))])
     = Inr (typed ''object'')"
  using
    resolve_storage_scan [of "widget (validation (typed ''object''))
      [version ''v1'' False None, version ''v2'' False None]"]
    resolve_storage_scan [of "widget None
      [version ''v1'' False None, version ''v2'' True (validation (typed ''object''))]"
      "version ''v2'' True (validation (typed ''object''))" "\<lparr>OpenAPIV3Schema = Some (typed ''object'')\<rparr>"]
  by (simp add: widget_def version_def validation_def require_schema_def)

subsection \<open>C5: exactly one version\<close>

text \<open>
  C5 as stated: with exactly one version, its schema is used when present and the
  top-level schema only when it is absent. The loop is guarded by
  \<^verbatim>\<open>len(crd.Spec.Versions) > 1\<close>: the schema of a single version is never read. Here the
  top-level schema is documented although the version has one, and without a top-level
  schema the request fails although the version has one.
\<close>

theorem single_version_counterexample:
  "resolve (widget (validation (described ''top''))
      [version ''v1'' True (validation (described ''one''))]) = Inr (described ''top'') \<and>
   described ''top'' \<noteq> described ''one'' \<and>
   resolve (widget None [version ''v1'' True (validation (described ''one''))])
     = Inl SchemaNotFound"
  by (simp add: resolve_def select_schema_def require_schema_def widget_def version_def
      validation_def described_def)

text \<open>
  C5, amended: with exactly one version, the top-level validation schema is the one
  selected, whether the version has a schema or not.
\<close>

theorem single_version_uses_top_level:
  assumes "length (Versions crd) = 1"
  shows "select_schema crd = Inr (Validation crd) \<and>
         resolve crd = require_schema (Validation crd)"
  using assms by (simp add: resolve_def select_schema_def)

theorem single_version_uses_top_level_witness:
  "length (Versions (widget (validation (described ''top''))
      [version ''v1'' True (validation (described ''one''))])) = 1 \<and>
   select_schema (widget (validation (described ''top''))
      [version ''v1'' True (validation (described ''one''))]) = Inr (validation (described ''top''))"
  using single_version_uses_top_level [of "widget (validation (described ''top''))
      [version ''v1'' True (validation (described ''one''))]"]
  by (simp add: widget_def)

subsection \<open>C8: a storage version without a schema\<close>

text \<open>
  C8: with more than one version, when the version that the scan finds (the first with
  \<open>Storage\<close> set) has no schema, the request fails with \<open>MissingStorageSchema\<close> and no
  page is written.
\<close>

theorem storage_version_without_schema:
  assumes "1 < length (Versions crd)" and "find Storage (Versions crd) = Some v"
    and "Schema v = None"
  shows "resolve crd = Inl MissingStorageSchema \<and>
         doc genRand n crd = Inl MissingStorageSchema"
  using assms by (simp add: doc_def resolve_def select_schema_def scan_versions_find)

theorem storage_version_without_schema_witness:
  "1 < length (Versions (widget (validation (described ''top''))
      [version ''v1'' False (validation (described ''one'')), version ''v2'' True None])) \<and>
   find Storage (Versions (widget (validation (described ''top''))
      [version ''v1'' False (validation (described ''one'')), version ''v2'' True None]))
     = Some (version ''v2'' True None) \<and>
   Schema (version ''v2'' True None) = None \<and>
   doc sample_genRand 0 (widget (validation (described ''top''))
      [version ''v1'' False (validation (described ''one'')), version ''v2'' True None])
     = Inl MissingStorageSchema"
  using storage_version_without_schema [of "widget (validation (described ''top''))
      [version ''v1'' False (validation (described ''one'')), version ''v2'' True None]"
      "version ''v2'' True None" sample_genRand 0]
  by (simp add: widget_def version_def)

subsection \<open>C9: the first storage version\<close>

text \<open>
  C9: with more than one version, the first version with \<open>Storage\<close> set decides: the
  selected schema is its schema (or the request fails when it has none), and the versions
  after it, storage versions or not, change nothing in the response.
\<close>

theorem first_storage_version_wins:
  assumes "list_all (\<lambda>u. \<not> Storage u) pre" and "Storage v"
    and "1 < length (pre @ v # post)" and "1 < length (pre @ v # post')"
  shows "select_schema (crd\<lparr>Versions := pre @ v # post\<rparr>) =
           (case Schema v of None \<Rightarrow> Inl MissingStorageSchema | Some s \<Rightarrow> Inr (Some s)) \<and>
         doc genRand n (crd\<lparr>Versions := pre @ v # post'\<rparr>) =
           doc genRand n (crd\<lparr>Versions := pre @ v # post\<rparr>)"
  using assms
  by (simp add: doc_def resolve_def select_schema_def scan_versions_find find_Storage_append
      split: sum.splits)

theorem first_storage_version_wins_witness:
  "list_all (\<lambda>u. \<not> Storage u) [] \<and>
   Storage (version ''v1'' True (validation (described ''one''))) \<and>
   select_schema (widget None
      [version ''v1'' True (validation (described ''one'')),
       version ''v2'' True (validation (described ''two''))])
     = Inr (validation (described ''one'')) \<and>
   doc sample_genRand 0 (widget None
      [version ''v1'' True (validation (described ''one'')),
       version ''v2'' True (validation (described ''two''))])
     = doc sample_genRand 0 (widget None
      [version ''v1'' True (validation (described ''one'')),
       version ''v2'' False None])"
  using first_storage_version_wins [of "[]" "version ''v1'' True (validation (described ''one''))"
      "[version ''v2'' True (validation (described ''two''))]" "[version ''v2'' False None]"
      "widget None []" sample_genRand 0]
  by (simp add: widget_def version_def validation_def)

subsection \<open>C10: the served flag\<close>

text \<open>
  C10: two definitions that differ only in the served flags of their versions resolve to
  the same schema or to the same failure, and get the same response.
\<close>

theorem served_flag_irrelevant:
  assumes "same_but_served crd crd'"
  shows "resolve crd = resolve crd' \<and> doc genRand n crd = doc genRand n crd'"
proof -
  from assms have "select_schema crd = select_schema crd'"
    using scan_versions_same_but_served [of "Versions crd" "Versions crd'" "Validation crd"]
    by (simp add: same_but_served_def select_schema_def)
  then have "resolve crd = resolve crd'"
    by (simp add: resolve_def)
  with assms show ?thesis
    by (simp add: doc_def same_but_served_def split: sum.splits)
qed

theorem served_flag_irrelevant_witness:
  "same_but_served
     (widget None [\<lparr>Name = ''v1'', Served = True, Storage = False, Schema = None\<rparr>,
        \<lparr>Name = ''v2'', Served = False, Storage = True, Schema = validation (described ''two'')\<rparr>])
     (widget None [\<lparr>Name = ''v1'', Served = False, Storage = False, Schema = None\<rparr>,
        \<lparr>Name = ''v2'', Served = True, Storage = True, Schema = validation (described ''two'')\<rparr>]) \<and>
   resolve
     (widget None [\<lparr>Name = ''v1'', Served = True, Storage = False, Schema = None\<rparr>,
        \<lparr>Name = ''v2'', Served = False, Storage = True, Schema = validation (described ''two'')\<rparr>])
   = resolve
     (widget None [\<lparr>Name = ''v1'', Served = False, Storage = False, Schema = None\<rparr>,
        \<lparr>Name = ''v2'', Served = True, Storage = True, Schema = validation (described ''two'')\<rparr>])"
  using served_flag_irrelevant
    [of "widget None [\<lparr>Name = ''v1'', Served = True, Storage = False, Schema = None\<rparr>,
        \<lparr>Name = ''v2'', Served = False, Storage = True, Schema = validation (described ''two'')\<rparr>]"
      "widget None [\<lparr>Name = ''v1'', Served = False, Storage = False, Schema = None\<rparr>,
        \<lparr>Name = ''v2'', Served = True, Storage = True, Schema = validation (described ''two'')\<rparr>]"]
  by (simp add: same_but_served_def widget_def)

section \<open>Reading the schema\<close>

text \<open>
  The outline of an output: its panels with their keys, nested as they are written, and
  nothing else.
\<close>

datatype outline = Node string "outline list"

fun outline_of :: "html \<Rightarrow> outline list" where
  "outline_of (Panel key randID body) = [Node key (concat (map outline_of body))]"
| "outline_of other = []"

definition outlines :: "html list \<Rightarrow> outline list" where
  "outlines out = concat (map outline_of out)"

lemma size_list_member:
  "(key, v) \<in> set m \<Longrightarrow> size v < size_list (size_prod (\<lambda>_. 0) size) m"
  by (induction m) auto

lemma size_Properties_member: "(key, v) \<in> set (Properties s) \<Longrightarrow> size v < size s"
  using size_list_member [of key v "Properties s"] size_Properties [of s] by simp

text \<open>
  What the template owes to a schema, read off the schema alone: \<open>written s\<close> is one
  node for each property of \<open>s\<close>, in ascending order of the keys (\<open>nodes\<close> goes
  through them), and \<open>children v\<close>, the nodes below the panel of a property \<open>v\<close>, are
  those of its own properties, then those of its additionalProperties schema, then those
  of its single items schema.
\<close>

function written :: "JSONSchemaProps \<Rightarrow> outline list"
  and children :: "JSONSchemaProps \<Rightarrow> outline list"
  and nodes :: "(string \<times> JSONSchemaProps) list \<Rightarrow> outline list" where
  "written s = nodes (sort_key fst (Properties s))"
| "children v =
     written v
     @ (case AdditionalProperties v of
          None \<Rightarrow> []
        | Some ap \<Rightarrow> (case BoolSchema ap of None \<Rightarrow> [] | Some s \<Rightarrow> written s))
     @ (case Items v of
          None \<Rightarrow> []
        | Some it \<Rightarrow> (case ArraySchema it of None \<Rightarrow> [] | Some s \<Rightarrow> written s))"
| "nodes [] = []"
| "nodes ((key, v) # rest) = Node key (children v) # nodes rest"
  by pat_completeness auto

termination
proof (relation "measures
   [\<lambda>x. case x of Inl s \<Rightarrow> size s | Inr (Inl v) \<Rightarrow> size v
      | Inr (Inr m) \<Rightarrow> size_list (size_prod (\<lambda>_. 0) size) m,
    \<lambda>x. case x of Inl s \<Rightarrow> 0 | Inr (Inl v) \<Rightarrow> 1 | Inr (Inr m) \<Rightarrow> 0]")
qed (auto simp: size_list_sort_key size_Properties size_BoolSchema size_ArraySchema)

text \<open>
  Whether the template meets a non-empty tuple of item schemas on its way through a
  schema: \<open>blocked s\<close> through the properties of \<open>s\<close>, \<open>blocked_node v\<close> through the
  panel of a property \<open>v\<close>.
\<close>

function blocked :: "JSONSchemaProps \<Rightarrow> bool"
  and blocked_node :: "JSONSchemaProps \<Rightarrow> bool"
  and blocked_list :: "(string \<times> JSONSchemaProps) list \<Rightarrow> bool" where
  "blocked s = blocked_list (Properties s)"
| "blocked_node v =
     (blocked v \<or>
      (case AdditionalProperties v of
         None \<Rightarrow> False
       | Some ap \<Rightarrow> (case BoolSchema ap of None \<Rightarrow> False | Some s \<Rightarrow> blocked s)) \<or>
      (case Items v of
         None \<Rightarrow> False
       | Some it \<Rightarrow>
           (case ArraySchema it of None \<Rightarrow> False | Some s \<Rightarrow> blocked s) \<or>
           0 < length (JSONSchemas it)))"
| "blocked_list [] = False"
| "blocked_list ((key, v) # rest) = (blocked_node v \<or> blocked_list rest)"
  by pat_completeness auto

termination
proof (relation "measures
   [\<lambda>x. case x of Inl s \<Rightarrow> size s | Inr (Inl v) \<Rightarrow> size v
      | Inr (Inr m) \<Rightarrow> size_list (size_prod (\<lambda>_. 0) size) m,
    \<lambda>x. case x of Inl s \<Rightarrow> 0 | Inr (Inl v) \<Rightarrow> 1 | Inr (Inr m) \<Rightarrow> 0]")
qed (auto simp: size_Properties size_BoolSchema size_ArraySchema)

lemmas outline_simps = written.simps children.simps nodes.simps
  blocked.simps blocked_node.simps blocked_list.simps

declare written.simps [simp del] children.simps [simp del]
  blocked.simps [simp del] blocked_node.simps [simp del]

text \<open>
  One Go map has many listings. \<open>canon\<close> lists every map of a schema in ascending order
  of its keys, at every level: two schemas with the same \<open>canon\<close> are the same value in
  Go, listed differently.
\<close>

fun canon :: "JSONSchemaProps \<Rightarrow> JSONSchemaProps"
  and canon_bool :: "JSONSchemaPropsOrBool \<Rightarrow> JSONSchemaPropsOrBool"
  and canon_array :: "JSONSchemaPropsOrArray \<Rightarrow> JSONSchemaPropsOrArray" where
  "canon (JSONSchemaProps d t r e lo hi ps ap it) =
     JSONSchemaProps d t r e lo hi
       (sort_key fst (map (\<lambda>kv. (fst kv, canon (snd kv))) ps))
       (map_option canon_bool ap) (map_option canon_array it)"
| "canon_bool (JSONSchemaPropsOrBool a s) = JSONSchemaPropsOrBool a (map_option canon s)"
| "canon_array (JSONSchemaPropsOrArray s js) =
     JSONSchemaPropsOrArray (map_option canon s) (map canon js)"



fun node_key :: "outline \<Rightarrow> string" where
  "node_key (Node key below) = key"

section \<open>Facts about the template\<close>

text \<open>
  Induction over the execution of the template: one case for each block, with the
  hypotheses for the blocks it executes.
\<close>

lemma template_induct
  [case_names field Nil Cons iteration properties additionalProperties items inline_schema]:
  fixes P1 P2 :: "(nat \<Rightarrow> string) \<Rightarrow> nat \<Rightarrow> (string \<times> JSONSchemaProps) list \<Rightarrow> bool"
    and P3 :: "(nat \<Rightarrow> string) \<Rightarrow> nat \<Rightarrow> string \<Rightarrow> JSONSchemaProps \<Rightarrow> bool"
    and P4 P5 P6 P7 :: "(nat \<Rightarrow> string) \<Rightarrow> nat \<Rightarrow> JSONSchemaProps \<Rightarrow> bool"
  assumes "\<And>g n m. P2 g n (sort_key fst m) \<Longrightarrow> P1 g n m"
    and "\<And>g n. P2 g n []"
    and "\<And>g n key v rest.
          P3 g n key v \<Longrightarrow>
          \<forall>p n1. iteration g n key v = Inr (p, n1) \<longrightarrow> P2 g n1 rest \<Longrightarrow>
          P2 g n ((key, v) # rest)"
    and "\<And>g n key v.
          P4 g (Suc n) v \<Longrightarrow>
          \<forall>props n1. properties g (Suc n) v = Inr (props, n1) \<longrightarrow> P5 g n1 v \<Longrightarrow>
          \<forall>props n1 addl n2.
              properties g (Suc n) v = Inr (props, n1) \<longrightarrow>
              additionalProperties g n1 v = Inr (addl, n2) \<longrightarrow> P6 g n2 v \<Longrightarrow>
          P3 g n key v"
    and "\<And>g n s.
          (Properties s \<noteq> [] \<longrightarrow> P1 g n (Properties s)) \<Longrightarrow>
          P4 g n s"
    and "\<And>g n v.
          \<forall>ap s. AdditionalProperties v = Some ap \<longrightarrow> BoolSchema ap = Some s \<longrightarrow> P7 g n s \<Longrightarrow>
          P5 g n v"
    and "\<And>g n v.
          \<forall>it s. Items v = Some it \<longrightarrow> ArraySchema it = Some s \<longrightarrow> P7 g n s \<Longrightarrow>
          P6 g n v"
    and "\<And>g n s. P4 g n s \<Longrightarrow> P7 g n s"
  shows "P1 g n m" and "P2 g n m" and "P3 g n key v" and "P4 g n v" and "P5 g n v"
    and "P6 g n v" and "P7 g n v"
proof (induction g n m and g n m and g n key v and g n v and g n v and g n v
      and g n v
      rule: field_range_loop_iteration_properties_additionalProperties_items_inline_schema.induct)
  case (1 genRand n m)
  then show ?case by (rule assms(1))
next
  case (2 genRand n)
  show ?case by (rule assms(2))
next
  case (3 genRand n key "value" rest)
  have "P2 genRand n1 rest" if "iteration genRand n key value = Inr (p, n1)"
    for p n1
    using 3(2) [OF that refl] .
  with 3(1) show ?case by (intro assms(3)) blast+
next
  case (4 genRand n key "value")
  have "P5 genRand n1 value"
    if "properties genRand (Suc n) value = Inr (props, n1)" for props n1
    using 4(2) [OF that refl] .
  moreover have "P6 genRand n2 value"
    if "properties genRand (Suc n) value = Inr (props, n1)"
      and "additionalProperties genRand n1 value = Inr (addl, n2)"
    for props n1 addl n2
    using 4(3) [OF that(1) refl that(2) refl] .
  ultimately show ?case using 4(1) by (intro assms(4)) blast+
next
  case (5 genRand n s)
  show ?case by (rule assms(5)) (simp add: 5)
next
  case (6 genRand n "value")
  show ?case by (rule assms(6)) (blast intro: 6)
next
  case (7 genRand n "value")
  show ?case by (rule assms(7)) (blast intro: 7)
next
  case (8 genRand n s)
  then show ?case by (rule assms(8))
qed

subsection \<open>The keys of the panels\<close>

lemma iteration_Panel:
  "iteration g n key v = Inr (p, n') \<Longrightarrow> is_Panel p \<and> panel_key p = key"
  by (auto simp: iteration.simps split: sum.splits prod.splits)

lemma range_loop_keys:
  "range_loop g n kvs = Inr (out, n') \<Longrightarrow>
   list_all is_Panel out \<and> map panel_key out = map fst kvs"
proof (induction kvs arbitrary: n out)
  case Nil
  then show ?case by (simp add: range_loop.simps)
next
  case (Cons kv kvs)
  obtain key v where kv: "kv = (key, v)" by (cases kv)
  from Cons.prems obtain p n1 ps where it: "iteration g n key v = Inr (p, n1)"
    and rl: "range_loop g n1 kvs = Inr (ps, n')" and out: "out = p # ps"
    by (auto simp: kv range_loop.simps split: sum.splits prod.splits)
  from iteration_Panel [OF it] Cons.IH [OF rl] show ?case
    by (simp add: out kv)
qed

lemma map_insort_key: "map f (insort_key f x xs) = insort (f x) (map f xs)"
  by (induction xs) auto

lemma map_fst_sort_key: "map fst (sort_key fst m) = sort (map fst m)"
  by (induction m) (auto simp: map_insort_key)

lemma field_keys:
  "field g n m = Inr (out, n') \<Longrightarrow>
   list_all is_Panel out \<and> map panel_key out = sort (map fst m)"
  using range_loop_keys [of g n "sort_key fst m" out n']
  by (simp add: field.simps map_fst_sort_key)

lemma properties_keys:
  "properties g n s = Inr (out, n') \<Longrightarrow>
   list_all is_Panel out \<and> map panel_key out = sort (map fst (Properties s))"
  using field_keys [of g n "Properties s" out n']
  by (auto simp: properties.simps split: if_splits)

text \<open>
  Two listings of one Go map (the same entries, no key twice) are visited in the same
  order.
\<close>

lemma sort_key_same_map:
  assumes "distinct (map fst m)" and "distinct (map fst m')" and "set m = set m'"
  shows "sort_key fst m = sort_key fst m'"
proof (rule map_sorted_distinct_set_unique [where f = fst])
  from assms(1) have "inj_on fst (set m)" by (simp add: distinct_map)
  with assms(3) show "inj_on fst (set (sort_key fst m) \<union> set (sort_key fst m'))" by simp
  show "distinct (map fst (sort_key fst m))" "distinct (map fst (sort_key fst m'))"
    using assms(1,2) by (simp_all add: map_fst_sort_key)
  show "set (sort_key fst m) = set (sort_key fst m')" using assms(3) by simp
qed (simp_all add: sorted_sort_key)

subsection \<open>The anchor ids\<close>

lemma upt_map_append:
  "n \<le> a \<Longrightarrow> a \<le> b \<Longrightarrow> map g [n..<a] @ map g [a..<b] = map g [n..<b]"
  by (metis le_Suc_ex map_append upt_add_eq_append)

lemma panel_ids_simps:
  "panel_ids [] = []"
  "panel_ids (p # ps) = ids p @ panel_ids ps"
  "panel_ids (xs @ ys) = panel_ids xs @ panel_ids ys"
  "panel_ids (scalars v) = []"
  by (auto simp: panel_ids_def scalars_def split: option.splits)

lemma draws_all:
  "draws g n (field g n m)"
  "draws g n (range_loop g n m)"
  "\<forall>p n'. iteration g n key v = Inr (p, n') \<longrightarrow> n < n' \<and> ids p = map g [n..<n']"
  "draws g n (properties g n v)"
  "draws g n (additionalProperties g n v)"
  "draws g n (items g n v)"
  "draws g n (inline_schema g n v)"
proof (induction g n m and g n m and g n key v and g n v and g n v and g n v
    and g n v rule: template_induct)
  case (field g n m)
  then show ?case by (simp add: field.simps)
next
  case (Nil g n)
  then show ?case by (simp add: range_loop.simps draws_def panel_ids_simps)
next
  case (Cons g n key v rest)
  then show ?case
    by (auto simp: range_loop.simps draws_def panel_ids_simps upt_map_append
        split: sum.splits prod.splits)
next
  case (iteration g n key v)
  then show ?case
    by (auto simp: iteration.simps draws_def upt_map_append upt_conv_Cons
        panel_ids_simps panel_ids_def [symmetric] split: sum.splits prod.splits)
next
  case (properties g n s)
  then show ?case by (simp add: properties.simps draws_def panel_ids_simps)
next
  case (additionalProperties g n v)
  then show ?case
    by (auto simp: additionalProperties.simps draws_def panel_ids_simps
        split: sum.splits prod.splits option.splits)
next
  case (items g n v)
  then show ?case
    by (auto simp: items.simps draws_def panel_ids_simps
        split: sum.splits prod.splits option.splits)
next
  case (inline_schema g n s)
  then show ?case
    by (auto simp: inline_schema.simps draws_def panel_ids_simps split: sum.splits prod.splits)
qed

subsection \<open>The output up to the anchor ids\<close>

lemma erase_ids_scalars: "map erase_ids (scalars v) = scalars v"
  by (auto simp: scalars_def split: option.splits)

lemma shape_eq_cases [consumes 1, case_names Inl Inr]:
  assumes "shape r = shape r'"
  obtains e where "r = Inl e" "r' = Inl e"
  | x n1 x' n1' where "r = Inr (x, n1)" "r' = Inr (x', n1')" "map erase_ids x = map erase_ids x'"
  using assms by (cases r; cases r') (auto simp: shape_def)

lemma shape_all:
  "\<forall>g' n'. shape (field g n m) = shape (field g' n' m)"
  "\<forall>g' n'. shape (range_loop g n m) = shape (range_loop g' n' m)"
  "\<forall>g' n'. shape1 (iteration g n key v) = shape1 (iteration g' n' key v)"
  "\<forall>g' n'. shape (properties g n v) = shape (properties g' n' v)"
  "\<forall>g' n'. shape (additionalProperties g n v) = shape (additionalProperties g' n' v)"
  "\<forall>g' n'. shape (items g n v) = shape (items g' n' v)"
  "\<forall>g' n'. shape (inline_schema g n v) = shape (inline_schema g' n' v)"
proof (induction g n m and g n m and g n key v and g n v and g n v and g n v
    and g n v rule: template_induct)
  case (field g n m)
  then show ?case unfolding field.simps .
next
  case (Nil g n)
  show ?case by (simp add: range_loop.simps shape_def)
next
  case (Cons g n key v rest)
  show ?case
  proof (intro allI)
    fix g' n'
    from Cons(1) have 1: "shape1 (iteration g n key v) = shape1 (iteration g' n' key v)"
      by simp
    show "shape (range_loop g n ((key, v) # rest)) =
        shape (range_loop g' n' ((key, v) # rest))"
    proof (cases "iteration g n key v")
      case (Inl e)
      with 1 show ?thesis
        by (cases "iteration g' n' key v") (auto simp: range_loop.simps shape_def shape1_def)
    next
      case (Inr b)
      obtain p n1 where b: "b = (p, n1)" by (cases b)
      from 1 Inr b obtain p' n1' where r': "iteration g' n' key v = Inr (p', n1')"
        and p': "erase_ids p' = erase_ids p"
        by (cases "iteration g' n' key v") (auto simp: shape1_def)
      from Cons(2) Inr b
      have "shape (range_loop g n1 rest) = shape (range_loop g' n1' rest)"
        by simp
      with Inr b r' p' show ?thesis
        by (cases "range_loop g n1 rest"; cases "range_loop g' n1' rest")
          (auto simp: range_loop.simps shape_def)
    qed
  qed
next
  case (iteration g n key v)
  show ?case
  proof (intro allI)
    fix g' n'
    from iteration(1)
    have "shape (properties g (Suc n) v) = shape (properties g' (Suc n') v)" by simp
    then show "shape1 (iteration g n key v) = shape1 (iteration g' n' key v)"
    proof (cases rule: shape_eq_cases)
      case (Inl e)
      then show ?thesis by (simp add: iteration.simps shape1_def)
    next
      case pr: (Inr props n1 props' n1')
      from iteration(2) pr(1)
      have "shape (additionalProperties g n1 v) = shape (additionalProperties g' n1' v)"
        by simp
      then show ?thesis
      proof (cases rule: shape_eq_cases)
        case (Inl e)
        with pr show ?thesis by (simp add: iteration.simps shape1_def)
      next
        case ad: (Inr addl n2 addl' n2')
        from iteration(3) pr(1) ad(1)
        have "shape (items g n2 v) = shape (items g' n2' v)"
          by simp
        then show ?thesis
        proof (cases rule: shape_eq_cases)
          case (Inl e)
          with pr ad show ?thesis by (simp add: iteration.simps shape1_def)
        next
          case (Inr its n3 its' n3')
          with pr ad show ?thesis by (simp add: iteration.simps shape1_def erase_ids_scalars)
        qed
      qed
    qed
  qed
next
  case (properties g n s)
  show ?case
  proof (cases "Properties s \<noteq> []")
    case True
    with properties show ?thesis unfolding properties.simps by simp
  next
    case False
    then show ?thesis by (auto simp: properties.simps shape_def)
  qed
next
  case (additionalProperties g n v)
  show ?case
  proof (intro allI)
    fix g' n'
    show "shape (additionalProperties g n v) = shape (additionalProperties g' n' v)"
    proof (cases "AdditionalProperties v")
      case None
      then show ?thesis by (simp add: additionalProperties.simps shape_def)
    next
      case ap: (Some ap)
      show ?thesis
      proof (cases "BoolSchema ap")
        case None
        with ap show ?thesis by (simp add: additionalProperties.simps shape_def)
      next
        case (Some s)
        with ap additionalProperties
        have "shape (inline_schema g n s) = shape (inline_schema g' n' s)" by simp
        with Some ap show ?thesis
          by (cases "inline_schema g n s"; cases "inline_schema g' n' s")
            (auto simp: additionalProperties.simps shape_def)
      qed
    qed
  qed
next
  case (items g n v)
  show ?case
  proof (intro allI)
    fix g' n'
    show "shape (items g n v) = shape (items g' n' v)"
    proof (cases "Items v")
      case None
      then show ?thesis by (simp add: items.simps shape_def)
    next
      case it: (Some it)
      show ?thesis
      proof (cases "ArraySchema it")
        case None
        with it show ?thesis by (simp add: items.simps shape_def)
      next
        case (Some s)
        with it items
        have "shape (inline_schema g n s) = shape (inline_schema g' n' s)" by simp
        with Some it show ?thesis
          by (cases "inline_schema g n s"; cases "inline_schema g' n' s")
            (auto simp: items.simps shape_def)
      qed
    qed
  qed
next
  case (inline_schema g n s)
  show ?case
  proof (intro allI)
    fix g' n'
    from inline_schema have "shape (properties g n s) = shape (properties g' n' s)"
      by simp
    then show "shape (inline_schema g n s) = shape (inline_schema g' n' s)"
      by (cases "properties g n s"; cases "properties g' n' s")
        (auto simp: inline_schema.simps shape_def)
  qed
qed

subsection \<open>What is written, and when\<close>

definition returns :: "html list exec \<Rightarrow> bool \<Rightarrow> outline list \<Rightarrow> bool" where
  "returns r b w =
     (if b then r = Inl BadComparisonType
      else (\<exists>out n'. r = Inr (out, n') \<and> outlines out = w))"

definition inline_written :: "JSONSchemaProps option \<Rightarrow> outline list" where
  "inline_written x = (case x of None \<Rightarrow> [] | Some s \<Rightarrow> written s)"

definition inline_blocked :: "JSONSchemaProps option \<Rightarrow> bool" where
  "inline_blocked x = (case x of None \<Rightarrow> False | Some s \<Rightarrow> blocked s)"

lemma blocked_list_iff: "blocked_list m = (\<exists>kv \<in> set m. blocked_node (snd kv))"
  by (induction m) auto

lemma blocked_list_sort_key: "blocked_list (sort_key fst m) = blocked_list m"
  by (simp add: blocked_list_iff)

lemma outlines_simps:
  "outlines [] = []"
  "outlines (p # ps) = outline_of p @ outlines ps"
  "outlines (xs @ ys) = outlines xs @ outlines ys"
  "outlines (scalars v) = []"
  "outlines [Paragraph a, TypeLabel b] = []"
  "outlines [AdditionalPropertiesAllowed] = []"
  by (auto simp: outlines_def scalars_def split: option.splits)

lemma exec_error_is: "(e :: exec_error) = BadComparisonType"
  by (cases e) simp

lemma returns_all:
  "returns (field g n m) (blocked_list m) (nodes (sort_key fst m))"
  "returns (range_loop g n m) (blocked_list m) (nodes m)"
  "if blocked_node v then iteration g n key v = Inl BadComparisonType
   else (\<exists>p n'. iteration g n key v = Inr (p, n') \<and> outline_of p = [Node key (children v)])"
  "returns (properties g n v) (blocked v) (written v)"
  "returns (additionalProperties g n v)
     (inline_blocked (case AdditionalProperties v of None \<Rightarrow> None | Some ap \<Rightarrow> BoolSchema ap))
     (inline_written (case AdditionalProperties v of None \<Rightarrow> None | Some ap \<Rightarrow> BoolSchema ap))"
  "returns (items g n v)
     (case Items v of None \<Rightarrow> False
      | Some it \<Rightarrow> inline_blocked (ArraySchema it) \<or> 0 < length (JSONSchemas it))
     (inline_written (case Items v of None \<Rightarrow> None | Some it \<Rightarrow> ArraySchema it))"
  "returns (inline_schema g n v) (blocked v) (written v)"
proof (induction g n m and g n m and g n key v and g n v and g n v and g n v
    and g n v rule: template_induct)
  case (field g n m)
  then show ?case by (simp add: field.simps blocked_list_sort_key)
next
  case (Nil g n)
  show ?case
    by (simp add: range_loop.simps returns_def  outlines_simps)
next
  case (Cons g n key v rest)
  show ?case
  proof (cases "blocked_node v")
    case True
    with Cons(1) show ?thesis
      by (simp add: range_loop.simps returns_def blocked_list.simps)
  next
    case False
    with Cons(1) obtain p n1 where it: "iteration g n key v = Inr (p, n1)"
      and p: "outline_of p = [Node key (children v)]"
      by auto
    from Cons(2) it
    have rest: "returns (range_loop g n1 rest) (blocked_list rest) (nodes rest)"
      by simp
    show ?thesis
    proof (cases "blocked_list rest")
      case True
      with rest it False show ?thesis
        by (simp add: range_loop.simps returns_def blocked_list.simps)
    next
      case rest_free: False
      with rest obtain ps n2 where "range_loop g n1 rest = Inr (ps, n2)"
        and "outlines ps = nodes rest"
        by (auto simp: returns_def)
      with it p False rest_free show ?thesis
        by (simp add: range_loop.simps returns_def 
            outlines_simps)
    qed
  qed
next
  case (iteration g n key v)
  let ?ap = "case AdditionalProperties v of None \<Rightarrow> None | Some ap \<Rightarrow> BoolSchema ap"
  let ?it = "case Items v of None \<Rightarrow> None | Some it \<Rightarrow> ArraySchema it"
  let ?tuple = "case Items v of None \<Rightarrow> False
      | Some it \<Rightarrow> inline_blocked (ArraySchema it) \<or> 0 < length (JSONSchemas it)"
  have node: "blocked_node v \<longleftrightarrow> blocked v \<or> inline_blocked ?ap \<or> ?tuple"
    by (simp add: blocked_node.simps inline_blocked_def split: option.splits)
  have kids: "children v = written v @ inline_written ?ap @ inline_written ?it"
    by (simp add: children.simps inline_written_def split: option.splits)
  show ?case
  proof (cases "blocked v")
    case True
    with iteration(1) node show ?thesis
      by (simp add: iteration.simps returns_def)
  next
    case b1: False
    with iteration(1) obtain props n1 where pr: "properties g (Suc n) v = Inr (props, n1)"
      and props: "outlines props = written v"
      by (auto simp: returns_def)
    from iteration(2) pr
    have ad: "returns (additionalProperties g n1 v) (inline_blocked ?ap) (inline_written ?ap)"
      by simp
    show ?thesis
    proof (cases "inline_blocked ?ap")
      case True
      with ad pr node show ?thesis
        by (simp add: iteration.simps returns_def)
    next
      case b2: False
      with ad obtain addl n2 where ad': "additionalProperties g n1 v = Inr (addl, n2)"
        and addl: "outlines addl = inline_written ?ap"
        by (auto simp: returns_def)
      from iteration(3) pr ad'
      have it: "returns (items g n2 v) ?tuple (inline_written ?it)"
        by simp
      show ?thesis
      proof (cases ?tuple)
        case True
        with it pr ad' node show ?thesis
          by (simp add: iteration.simps returns_def)
      next
        case b3: False
        with it obtain its n3 where "items g n2 v = Inr (its, n3)"
          and "outlines its = inline_written ?it"
          by (auto simp: returns_def)
        with pr ad' props addl b1 b2 b3 node kids show ?thesis
          by (simp add: iteration.simps outlines_simps outlines_def [symmetric])
      qed
    qed
  qed
next
  case (properties g n s)
  then show ?case
    by (auto simp: properties.simps returns_def blocked.simps written.simps
         outlines_simps)
next
  case (additionalProperties g n v)
  then show ?case
    by (auto simp: additionalProperties.simps returns_def inline_blocked_def inline_written_def
        outlines_simps split: option.splits)
next
  case (items g n v)
  show ?case
  proof (cases "Items v")
    case None
    then show ?thesis
      by (simp add: items.simps returns_def inline_written_def outlines_simps)
  next
    case it: (Some it)
    show ?thesis
    proof (cases "ArraySchema it")
      case None
      with it show ?thesis
        by (simp add: items.simps returns_def inline_blocked_def inline_written_def
            outlines_simps)
    next
      case (Some s)
      with it items have "returns (inline_schema g n s) (blocked s) (written s)"
        by simp
      with it Some show ?thesis
        by (cases "blocked s")
          (auto simp: items.simps returns_def inline_blocked_def inline_written_def)
    qed
  qed
next
  case (inline_schema g n s)
  then show ?case
    by (auto simp: inline_schema.simps returns_def outlines_simps)
qed

subsection \<open>The listing of a map does not matter\<close>

definition canon_list :: "(string \<times> JSONSchemaProps) list \<Rightarrow> (string \<times> JSONSchemaProps) list" where
  "canon_list m = map (\<lambda>kv. (fst kv, canon (snd kv))) m"

lemma insort_key_canon:
  "insort_key fst (fst kv, canon (snd kv)) (canon_list m) = canon_list (insort_key fst kv m)"
  by (induction m) (auto simp: canon_list_def)

lemma sort_key_canon_list: "sort_key fst (canon_list m) = canon_list (sort_key fst m)"
proof (induction m)
  case Nil
  show ?case by (simp add: canon_list_def)
next
  case (Cons kv m)
  have "sort_key fst (canon_list (kv # m)) =
      insort_key fst (fst kv, canon (snd kv)) (sort_key fst (canon_list m))"
    by (simp add: canon_list_def)
  with Cons show ?case by (simp add: insort_key_canon)
qed

lemma canon_Properties:
  "canon v' = canon v \<Longrightarrow>
   canon_list (sort_key fst (Properties v')) = canon_list (sort_key fst (Properties v))"
  by (cases v; cases v') (simp add: sort_key_canon_list canon_list_def [symmetric])

lemma canon_scalars:
  "canon v' = canon v \<Longrightarrow>
   scalars v' = scalars v \<and> Description v' = Description v \<and> Type v' = Type v"
  by (cases v; cases v') (simp add: scalars_def)

lemma canon_AdditionalProperties:
  "canon v' = canon v \<Longrightarrow>
   map_option canon_bool (AdditionalProperties v') = map_option canon_bool (AdditionalProperties v)"
  by (cases v; cases v') simp

lemma canon_Items:
  "canon v' = canon v \<Longrightarrow>
   map_option canon_array (Items v') = map_option canon_array (Items v)"
  by (cases v; cases v') simp

lemma canon_list_empty: "canon_list m' = canon_list m \<Longrightarrow> (m' = []) = (m = [])"
  by (auto simp: canon_list_def)

lemma relisted_all:
  "\<forall>m'. canon_list (sort_key fst m') = canon_list (sort_key fst m) \<longrightarrow>
      field g n m' = field g n m"
  "\<forall>m'. canon_list m' = canon_list m \<longrightarrow> range_loop g n m' = range_loop g n m"
  "\<forall>v'. canon v' = canon v \<longrightarrow> iteration g n key v' = iteration g n key v"
  "\<forall>v'. canon v' = canon v \<longrightarrow> properties g n v' = properties g n v"
  "\<forall>v'. map_option canon_bool (AdditionalProperties v') =
        map_option canon_bool (AdditionalProperties v) \<longrightarrow>
      additionalProperties g n v' = additionalProperties g n v"
  "\<forall>v'. map_option canon_array (Items v') = map_option canon_array (Items v) \<longrightarrow>
      items g n v' = items g n v"
  "\<forall>v'. canon v' = canon v \<longrightarrow> inline_schema g n v' = inline_schema g n v"
proof (induction g n m and g n m and g n key v and g n v and g n v and g n v
    and g n v rule: template_induct)
  case (field g n m)
  then show ?case unfolding field.simps by blast
next
  case (Nil g n)
  show ?case by (simp add: canon_list_def)
next
  case (Cons g n key v rest)
  show ?case
  proof (intro allI impI)
    fix m'
    assume "canon_list m' = canon_list ((key, v) # rest)"
    then obtain v' rest' where m': "m' = (key, v') # rest'" and v': "canon v' = canon v"
      and rest': "canon_list rest' = canon_list rest"
      by (cases m') (auto simp: canon_list_def)
    from Cons(1) v' have 1: "iteration g n key v' = iteration g n key v" by blast
    show "range_loop g n m' = range_loop g n ((key, v) # rest)"
    proof (cases "iteration g n key v")
      case (Inl e)
      with 1 show ?thesis by (simp add: m' range_loop.simps)
    next
      case (Inr b)
      obtain p n1 where b: "b = (p, n1)" by (cases b)
      from Cons(2) Inr b rest' have "range_loop g n1 rest' = range_loop g n1 rest" by blast
      with 1 Inr b show ?thesis by (simp add: m' range_loop.simps)
    qed
  qed
next
  case (iteration g n key v)
  show ?case
  proof (intro allI impI)
    fix v'
    assume v': "canon v' = canon v"
    from iteration(1) v' have 1: "properties g (Suc n) v' = properties g (Suc n) v" by blast
    note ap = canon_AdditionalProperties [OF v'] and it = canon_Items [OF v']
      and sc = canon_scalars [OF v']
    show "iteration g n key v' = iteration g n key v"
    proof (cases "properties g (Suc n) v")
      case (Inl e)
      with 1 show ?thesis by (simp add: iteration.simps)
    next
      case (Inr b)
      obtain props n1 where b: "b = (props, n1)" by (cases b)
      from iteration(2) Inr b ap
      have 2: "additionalProperties g n1 v' = additionalProperties g n1 v" by blast
      show ?thesis
      proof (cases "additionalProperties g n1 v")
        case (Inl e)
        with 1 2 Inr b show ?thesis by (simp add: iteration.simps)
      next
        case ad: (Inr c)
        obtain addl n2 where c: "c = (addl, n2)" by (cases c)
        from iteration(3) Inr b ad c it have "items g n2 v' = items g n2 v" by blast
        with 1 2 Inr b ad c sc show ?thesis
          by (simp add: iteration.simps split: sum.splits)
      qed
    qed
  qed
next
  case (properties g n s)
  show ?case
  proof (intro allI impI)
    fix v'
    assume v': "canon v' = canon s"
    note ps = canon_Properties [OF v']
    from ps have e: "(Properties v' = []) = (Properties s = [])"
      by (metis canon_list_empty length_0_conv length_sort)
    show "properties g n v' = properties g n s"
    proof (cases "Properties s = []")
      case True
      with e show ?thesis by (simp add: properties.simps)
    next
      case False
      with properties ps have "field g n (Properties v') = field g n (Properties s)" by blast
      with e False show ?thesis by (simp add: properties.simps)
    qed
  qed
next
  case (additionalProperties g n v)
  show ?case
  proof (intro allI impI)
    fix v'
    assume a: "map_option canon_bool (AdditionalProperties v') =
        map_option canon_bool (AdditionalProperties v)"
    show "additionalProperties g n v' = additionalProperties g n v"
    proof (cases "AdditionalProperties v")
      case None
      with a show ?thesis by (simp add: additionalProperties.simps)
    next
      case (Some ap)
      with a obtain ap' where ap': "AdditionalProperties v' = Some ap'"
        and c: "canon_bool ap' = canon_bool ap"
        by auto
      from c have al: "Allows ap' = Allows ap"
        and s: "map_option canon (BoolSchema ap') = map_option canon (BoolSchema ap)"
        by (cases ap; cases ap'; simp)+
      show ?thesis
      proof (cases "BoolSchema ap")
        case None
        with s Some ap' al show ?thesis by (simp add: additionalProperties.simps)
      next
        case sch: (Some sch)
        with s obtain sch' where sch': "BoolSchema ap' = Some sch'" "canon sch' = canon sch"
          by auto
        with additionalProperties Some sch
        have "inline_schema g n sch' = inline_schema g n sch" by blast
        with Some ap' al sch sch' show ?thesis
          by (simp add: additionalProperties.simps split: sum.splits)
      qed
    qed
  qed
next
  case (items g n v)
  show ?case
  proof (intro allI impI)
    fix v'
    assume a: "map_option canon_array (Items v') = map_option canon_array (Items v)"
    show "items g n v' = items g n v"
    proof (cases "Items v")
      case None
      with a show ?thesis by (simp add: items.simps)
    next
      case (Some it)
      with a obtain it' where it': "Items v' = Some it'"
        and c: "canon_array it' = canon_array it"
        by auto
      from c have js: "(JSONSchemas it' = []) = (JSONSchemas it = [])"
        and s: "map_option canon (ArraySchema it') = map_option canon (ArraySchema it)"
        by (cases it; cases it'; auto)+
      show ?thesis
      proof (cases "ArraySchema it")
        case None
        with s Some it' js show ?thesis by (simp add: items.simps)
      next
        case sch: (Some sch)
        with s obtain sch' where sch': "ArraySchema it' = Some sch'" "canon sch' = canon sch"
          by auto
        with items Some sch
        have "inline_schema g n sch' = inline_schema g n sch" by blast
        with Some it' js sch sch' show ?thesis
          by (simp add: items.simps split: sum.splits)
      qed
    qed
  qed
next
  case (inline_schema g n s)
  show ?case
  proof (intro allI impI)
    fix v'
    assume v': "canon v' = canon s"
    with inline_schema have "properties g n v' = properties g n s" by blast
    with canon_scalars [OF v'] show "inline_schema g n v' = inline_schema g n s"
      by (simp add: inline_schema.simps split: sum.splits)
  qed
qed

subsection \<open>Nesting\<close>








lemma sorted_written: "sorted (map node_key (written s))"
proof -
  have "map node_key (nodes m) = map fst m" for m
    by (induction m) auto
  then have "map node_key (written s) = map fst (sort_key fst (Properties s))"
    by (simp add: written.simps)
  then show ?thesis by (simp add: sorted_sort_key)
qed

lemma docTemplate_returns:
  "if blocked schema then docTemplate g n grp ver knd schema = Inl BadComparisonType
   else (\<exists>pg n'. docTemplate g n grp ver knd schema = Inr (pg, n') \<and>
           outlines (accordion pg) = written schema)"
  using returns_all(4) [of g n schema]
  by (auto simp: returns_def docTemplate_def)

text \<open>The equations that evaluate the template on a given schema.\<close>

lemmas eval_simps = template_simps scalars_def typed_def object_def sample_genRand_def
  docTemplate_def

subsection \<open>C2: the anchor ids of one page\<close>

text \<open>
  C2 as stated: the ids assigned in one build pass are pairwise distinct, whatever the
  tree. The ids are draws of the random source and nothing compares them: when the
  source returns the same string twice, two panels of the page carry the same id.
\<close>

theorem anchor_ids_counterexample:
  "map_sum id (\<lambda>(pg, k). accordion pg)
     (docTemplate (\<lambda>i. ''bcdfghjklm'') 0 ''example.com'' ''v1'' ''Widget''
        (object [(''a'', typed ''string''), (''b'', typed ''string'')])) =
   Inr [Panel ''a'' ''bcdfghjklm'' [Paragraph [], TypeLabel ''string''],
        Panel ''b'' ''bcdfghjklm'' [Paragraph [], TypeLabel ''string'']]"
  by (simp add: eval_simps)

text \<open>
  C2, amended: the ids of a page are the successive draws of the random source made
  while it is written, one for each panel in document order (a nested items or
  additionalProperties schema is written into its panel and gets none); they are
  pairwise distinct, as many ids as panels, exactly when these draws are.
\<close>

theorem anchor_ids_are_successive_draws:
  assumes "docTemplate genRand n grp ver knd schema = Inr (pg, n')"
  shows "panel_ids (accordion pg) = map genRand [n..<n'] \<and>
         (distinct (panel_ids (accordion pg)) \<longleftrightarrow> inj_on genRand {n..<n'}) \<and>
         (card (set (panel_ids (accordion pg))) = length (panel_ids (accordion pg))
            \<longleftrightarrow> inj_on genRand {n..<n'})"
proof -
  from assms obtain out where "properties genRand n schema = Inr (out, n')"
    and "accordion pg = out"
    by (auto simp: docTemplate_def split: sum.splits prod.splits)
  with draws_all(4) [of genRand n schema]
  have "panel_ids (accordion pg) = map genRand [n..<n']"
    by (simp add: draws_def)
  then have "distinct (panel_ids (accordion pg)) \<longleftrightarrow> inj_on genRand {n..<n'}"
    by (simp add: distinct_map)
  moreover have "card (set (panel_ids (accordion pg))) = length (panel_ids (accordion pg))
      \<longleftrightarrow> distinct (panel_ids (accordion pg))"
    by (metis card_distinct distinct_card)
  ultimately show ?thesis
    using \<open>panel_ids (accordion pg) = map genRand [n..<n']\<close> by simp
qed

theorem anchor_ids_are_successive_draws_witness:
  "docTemplate sample_genRand 0 ''example.com'' ''v1'' ''Widget''
     (object [(''a'', typed ''string''), (''b'', typed ''string'')]) =
   Inr (\<lparr>page_Group = ''example.com'', page_Version = ''v1'', page_Kind = ''Widget'',
         page_Description = [],
         accordion = [Panel ''a'' ''bcdfghjklb'' [Paragraph [], TypeLabel ''string''],
                      Panel ''b'' ''bcdfghjklc'' [Paragraph [], TypeLabel ''string'']]\<rparr>, 2) \<and>
   panel_ids [Panel ''a'' ''bcdfghjklb'' [Paragraph [], TypeLabel ''string''],
              Panel ''b'' ''bcdfghjklc'' [Paragraph [], TypeLabel ''string'']] =
   map sample_genRand [0..<2]"
proof -
  have run: "docTemplate sample_genRand 0 ''example.com'' ''v1'' ''Widget''
     (object [(''a'', typed ''string''), (''b'', typed ''string'')]) =
   Inr (\<lparr>page_Group = ''example.com'', page_Version = ''v1'', page_Kind = ''Widget'',
         page_Description = [],
         accordion = [Panel ''a'' ''bcdfghjklb'' [Paragraph [], TypeLabel ''string''],
                      Panel ''b'' ''bcdfghjklc'' [Paragraph [], TypeLabel ''string'']]\<rparr>, 2)"
    by (simp add: eval_simps)
  from anchor_ids_are_successive_draws [OF run] run show ?thesis by simp
qed

subsection \<open>C3: deep schemas\<close>



text \<open>
  The same on a schema that is wide and has inline schemas: the property "spec" has two
  properties, an additionalProperties schema and an items schema with one property each.
\<close>

definition wide :: JSONSchemaProps where
  "wide = object [(''spec'', JSONSchemaProps [] ''object'' [] [] None None
      [(''b'', typed ''integer''), (''a'', object [(''z'', typed ''string'')])]
      (Some (JSONSchemaPropsOrBool False (Some (object [(''x'', typed ''string'')]))))
      (Some (JSONSchemaPropsOrArray (Some (object [(''y'', typed ''string'')])) [])))]"

lemma written_wide:
  "written wide =
     [Node ''spec'' [Node ''a'' [Node ''z'' []], Node ''b'' [], Node ''x'' [], Node ''y'' []]]"
  by (simp add: wide_def object_def typed_def outline_simps)

lemma blocked_wide: "\<not> blocked wide"
  by (simp add: wide_def object_def typed_def outline_simps)


subsection \<open>C4: the order of the properties\<close>

text \<open>
  C4: two builds of the same schema give the same page up to the anchor ids, whatever
  the random source returns: the same panels with the same children in the same order,
  or the same error. At every object node, at every depth, the panels of its properties
  are in ascending order of their keys: the outline of the page is \<open>written schema\<close>,
  whose every list of property nodes is sorted. And the order in which the entries of
  the maps are listed, at any level, does not matter.
\<close>

theorem property_order_deterministic:
  "map_sum id (\<lambda>(pg, k). pg\<lparr>accordion := map erase_ids (accordion pg)\<rparr>)
     (docTemplate genRand n grp ver knd schema) =
   map_sum id (\<lambda>(pg, k). pg\<lparr>accordion := map erase_ids (accordion pg)\<rparr>)
     (docTemplate genRand' n' grp ver knd schema) \<and>
   (docTemplate genRand n grp ver knd schema = Inr (pg, k) \<longrightarrow>
      outlines (accordion pg) = written schema) \<and>
   sorted (map node_key (written s)) \<and>
   (canon schema' = canon schema \<longrightarrow>
      docTemplate genRand n grp ver knd schema' = docTemplate genRand n grp ver knd schema)"
proof (intro conjI impI)
  have "shape (properties genRand n schema) = shape (properties genRand' n' schema)"
    using shape_all(4) [of genRand n schema] by simp
  then show "map_sum id (\<lambda>(pg, k). pg\<lparr>accordion := map erase_ids (accordion pg)\<rparr>)
     (docTemplate genRand n grp ver knd schema) =
   map_sum id (\<lambda>(pg, k). pg\<lparr>accordion := map erase_ids (accordion pg)\<rparr>)
     (docTemplate genRand' n' grp ver knd schema)"
    by (cases rule: shape_eq_cases) (simp_all add: docTemplate_def)
next
  assume "docTemplate genRand n grp ver knd schema = Inr (pg, k)"
  with docTemplate_returns [of schema genRand n grp ver knd]
  show "outlines (accordion pg) = written schema"
    by (auto split: if_splits)
next
  show "sorted (map node_key (written s))" by (rule sorted_written)
next
  assume c: "canon schema' = canon schema"
  with relisted_all(4) [where g = genRand and n = n and v = schema]
  have "properties genRand n schema' = properties genRand n schema" by blast
  with canon_scalars [OF c]
  show "docTemplate genRand n grp ver knd schema' = docTemplate genRand n grp ver knd schema"
    by (simp add: docTemplate_def split: sum.splits)
qed

text \<open>The schema \<open>wide\<close> with the properties of "spec" listed the other way round.\<close>

definition wide_relisted :: JSONSchemaProps where
  "wide_relisted = object [(''spec'', JSONSchemaProps [] ''object'' [] [] None None
      [(''a'', object [(''z'', typed ''string'')]), (''b'', typed ''integer'')]
      (Some (JSONSchemaPropsOrBool False (Some (object [(''x'', typed ''string'')]))))
      (Some (JSONSchemaPropsOrArray (Some (object [(''y'', typed ''string'')])) [])))]"

theorem property_order_deterministic_witness:
  "canon wide_relisted = canon wide \<and>
   docTemplate sample_genRand 0 ''example.com'' ''v1'' ''Widget'' wide_relisted =
   docTemplate sample_genRand 0 ''example.com'' ''v1'' ''Widget'' wide \<and>
   (\<exists>pg k. docTemplate sample_genRand 0 ''example.com'' ''v1'' ''Widget'' wide = Inr (pg, k) \<and>
      outlines (accordion pg) =
        [Node ''spec'' [Node ''a'' [Node ''z'' []], Node ''b'' [], Node ''x'' [], Node ''y'' []]])"
proof -
  have c: "canon wide_relisted = canon wide"
    by (simp add: wide_def wide_relisted_def object_def typed_def)
  from docTemplate_returns [of wide sample_genRand 0 "''example.com''" "''v1''" "''Widget''"]
  obtain pg k where
    run: "docTemplate sample_genRand 0 ''example.com'' ''v1'' ''Widget'' wide = Inr (pg, k)"
    by (auto simp: blocked_wide)
  from property_order_deterministic [of sample_genRand 0 "''example.com''" "''v1''"
      "''Widget''" wide sample_genRand 0 pg k wide wide_relisted] c run
  show ?thesis by (simp add: written_wide)
qed

subsection \<open>C6: items\<close>

text \<open>
  A non-empty tuple of item schemas stops the execution: no panel is written for it.
\<close>

lemma items_tuple_fails:
  assumes "Items v = Some it" and "JSONSchemas it \<noteq> []"
  shows "\<exists>e. items genRand n v = Inl e"
  using assms by (auto simp: items.simps split: option.splits sum.splits)

text \<open>
  Of a schema that has no panel of its own (the root schema, and a schema written
  inline) only the description, the type and the properties are read.
\<close>

lemma properties_reads_Properties:
  "properties g n (JSONSchemaProps d t r e lo hi ps ap it) =
   properties g n (JSONSchemaProps d t r e lo hi ps ap' it')"
  by (simp add: properties.simps)

text \<open>
  C6 as stated: a single item schema gives one child labelled "items", a tuple of \<open>n\<close>
  schemas gives \<open>n\<close> children labelled "items[0]", "items[1]" and so on. The template
  writes a single item schema into the panel of the array itself: its description and
  its type, with no panel, no id and no label of its own, then one panel for each of its
  properties, labelled with the name of the property. An array of strings gets no child
  at all, an array of objects with the property "name" gets the child "name".
\<close>

theorem items_counterexample:
  "field sample_genRand 0
     [(''tags'', JSONSchemaProps [] ''array'' [] [] None None [] None
        (Some (JSONSchemaPropsOrArray (Some (typed ''string'')) [])))] =
   Inr ([Panel ''tags'' ''bcdfghjklb''
          [Paragraph [], TypeLabel ''array'', Paragraph [], TypeLabel ''string'']], 1) \<and>
   field sample_genRand 0
     [(''tags'', JSONSchemaProps [] ''array'' [] [] None None [] None
        (Some (JSONSchemaPropsOrArray (Some (object [(''name'', typed ''string'')])) [])))] =
   Inr ([Panel ''tags'' ''bcdfghjklb''
          [Paragraph [], TypeLabel ''array'', Paragraph [], TypeLabel ''object'',
           Panel ''name'' ''bcdfghjklc'' [Paragraph [], TypeLabel ''string'']]], 2)"
  by (simp add: eval_simps)

text \<open>
  C6, amended: for every property whose value has an items field holding a single schema
  and no tuple, the template executes that schema once, inline: the body of the panel of
  the property ends with the description and the type of the item schema, followed by
  the panels of the properties of the item schema, in ascending order of their names and
  labelled with them. The items field of the root schema and of a schema written inline
  is not executed: the page and the inline text are the same without it.
\<close>

theorem items_single_schema_inline:
  "(iteration genRand n key v = Inr (p, n') \<and>
    Items v = Some it \<and> ArraySchema it = Some s \<and> JSONSchemas it = [] \<longrightarrow>
      (\<exists>props addl sub n1 n2.
         p = Panel key (genRand n)
               (scalars v @ props @ addl @ [Paragraph (Description s), TypeLabel (Type s)] @ sub) \<and>
         properties genRand (Suc n) v = Inr (props, n1) \<and>
         additionalProperties genRand n1 v = Inr (addl, n2) \<and>
         properties genRand n2 s = Inr (sub, n') \<and>
         list_all is_Panel sub \<and> map panel_key sub = sort (map fst (Properties s)))) \<and>
   docTemplate genRand n grp ver knd (JSONSchemaProps d t r e lo hi ps ap x) =
   docTemplate genRand n grp ver knd (JSONSchemaProps d t r e lo hi ps ap None) \<and>
   inline_schema genRand n (JSONSchemaProps d t r e lo hi ps ap x) =
   inline_schema genRand n (JSONSchemaProps d t r e lo hi ps ap None)"
proof (intro conjI impI)
  assume a: "iteration genRand n key v = Inr (p, n') \<and>
    Items v = Some it \<and> ArraySchema it = Some s \<and> JSONSchemas it = []"
  then obtain props n1 addl n2 its where
    pr: "properties genRand (Suc n) v = Inr (props, n1)" and
    ad: "additionalProperties genRand n1 v = Inr (addl, n2)" and
    it: "items genRand n2 v = Inr (its, n')" and
    p: "p = Panel key (genRand n) (scalars v @ props @ addl @ its)"
    by (auto simp: iteration.simps split: sum.splits prod.splits)
  from it a obtain sub where sub: "properties genRand n2 s = Inr (sub, n')"
    and its: "its = [Paragraph (Description s), TypeLabel (Type s)] @ sub"
    by (auto simp: items.simps inline_schema.simps split: sum.splits prod.splits)
  from properties_keys [OF sub] pr ad sub p its
  show "\<exists>props addl sub n1 n2.
         p = Panel key (genRand n)
               (scalars v @ props @ addl @ [Paragraph (Description s), TypeLabel (Type s)] @ sub) \<and>
         properties genRand (Suc n) v = Inr (props, n1) \<and>
         additionalProperties genRand n1 v = Inr (addl, n2) \<and>
         properties genRand n2 s = Inr (sub, n') \<and>
         list_all is_Panel sub \<and> map panel_key sub = sort (map fst (Properties s))"
    by blast
next
  show "docTemplate genRand n grp ver knd (JSONSchemaProps d t r e lo hi ps ap x) =
   docTemplate genRand n grp ver knd (JSONSchemaProps d t r e lo hi ps ap None)"
    by (simp add: docTemplate_def properties.simps split: sum.splits)
next
  show "inline_schema genRand n (JSONSchemaProps d t r e lo hi ps ap x) =
   inline_schema genRand n (JSONSchemaProps d t r e lo hi ps ap None)"
    by (simp add: inline_schema.simps properties.simps split: sum.splits)
qed

text \<open>An array of objects that have the property "name".\<close>

definition tags :: JSONSchemaProps where
  "tags = JSONSchemaProps [] ''array'' [] [] None None [] None
     (Some (JSONSchemaPropsOrArray (Some (object [(''name'', typed ''string'')])) []))"

theorem items_single_schema_inline_witness:
  "iteration sample_genRand 0 ''tags'' tags =
     Inr (Panel ''tags'' ''bcdfghjklb''
           [Paragraph [], TypeLabel ''array'', Paragraph [], TypeLabel ''object'',
            Panel ''name'' ''bcdfghjklc'' [Paragraph [], TypeLabel ''string'']], 2) \<and>
   Items tags = Some (JSONSchemaPropsOrArray (Some (object [(''name'', typed ''string'')])) []) \<and>
   (\<exists>props addl sub n1 n2.
      Panel ''tags'' ''bcdfghjklb''
           [Paragraph [], TypeLabel ''array'', Paragraph [], TypeLabel ''object'',
            Panel ''name'' ''bcdfghjklc'' [Paragraph [], TypeLabel ''string'']] =
      Panel ''tags'' (sample_genRand 0)
        (scalars tags @ props @ addl @
         [Paragraph (Description (object [(''name'', typed ''string'')])),
          TypeLabel (Type (object [(''name'', typed ''string'')]))] @ sub) \<and>
      properties sample_genRand (Suc 0) tags = Inr (props, n1) \<and>
      additionalProperties sample_genRand n1 tags = Inr (addl, n2) \<and>
      properties sample_genRand n2 (object [(''name'', typed ''string'')]) = Inr (sub, 2) \<and>
      list_all is_Panel sub \<and>
      map panel_key sub = sort (map fst (Properties (object [(''name'', typed ''string'')]))))"
proof -
  have run: "iteration sample_genRand 0 ''tags'' tags =
     Inr (Panel ''tags'' ''bcdfghjklb''
           [Paragraph [], TypeLabel ''array'', Paragraph [], TypeLabel ''object'',
            Panel ''name'' ''bcdfghjklc'' [Paragraph [], TypeLabel ''string'']], 2)"
    by (simp add: tags_def eval_simps)
  have it: "Items tags =
      Some (JSONSchemaPropsOrArray (Some (object [(''name'', typed ''string'')])) [])"
    by (simp add: tags_def)
  from items_single_schema_inline [of sample_genRand 0 "''tags''" tags
      "Panel ''tags'' ''bcdfghjklb''
           [Paragraph [], TypeLabel ''array'', Paragraph [], TypeLabel ''object'',
            Panel ''name'' ''bcdfghjklc'' [Paragraph [], TypeLabel ''string'']]" 2
      "JSONSchemaPropsOrArray (Some (object [(''name'', typed ''string'')])) []"
      "object [(''name'', typed ''string'')]"] run it
  show ?thesis by simp
qed

subsection \<open>C7: additionalProperties\<close>

text \<open>
  C7 as stated: the boolean true sets the flag and adds no child, the boolean false does
  nothing, and a nested schema gives exactly one child labelled "additionalProperties".
  The template writes a nested schema into the panel of the node itself: its description
  and its type, with no panel, no id and no label of its own, then one panel for each of
  its properties. A nested schema with the properties "x" and "y" gives the two children
  "x" and "y".
\<close>

theorem additionalProperties_counterexample:
  "field sample_genRand 0
     [(''labels'', JSONSchemaProps [] ''object'' [] [] None None []
        (Some (JSONSchemaPropsOrBool False
           (Some (object [(''x'', typed ''string''), (''y'', typed ''string'')])))) None)] =
   Inr ([Panel ''labels'' ''bcdfghjklb''
          [Paragraph [], TypeLabel ''object'', Paragraph [], TypeLabel ''object'',
           Panel ''x'' ''bcdfghjklc'' [Paragraph [], TypeLabel ''string''],
           Panel ''y'' ''bcdfghjkld'' [Paragraph [], TypeLabel ''string'']]], 3)"
  by (simp add: eval_simps)

text \<open>
  C7, amended: for every property whose value has an additionalProperties field, the
  body of the panel of the property holds, after the scalars and the panels of its own
  properties: the line "AdditionalProperties allowed." when \<open>Allows\<close> is true and
  nothing for it when it is false; then, when a nested schema is present, the
  description and the type of that schema followed by the panels of its properties, in
  ascending order of their names and labelled with them, and when none is present
  nothing, with no draw made. The additionalProperties field of the root schema and of a
  schema written inline is not executed: the page and the inline text are the same
  without it.
\<close>

theorem additionalProperties_block:
  "(iteration genRand n key v = Inr (p, n') \<and> AdditionalProperties v = Some ap \<longrightarrow>
      (\<exists>props sub its n1 n2.
         p = Panel key (genRand n)
               (scalars v @ props
                @ (if Allows ap then [AdditionalPropertiesAllowed] else [])
                @ (case BoolSchema ap of
                     None \<Rightarrow> []
                   | Some s \<Rightarrow> [Paragraph (Description s), TypeLabel (Type s)])
                @ sub @ its) \<and>
         properties genRand (Suc n) v = Inr (props, n1) \<and>
         (case BoolSchema ap of
            None \<Rightarrow> sub = [] \<and> n2 = n1
          | Some s \<Rightarrow>
              properties genRand n1 s = Inr (sub, n2) \<and>
              list_all is_Panel sub \<and> map panel_key sub = sort (map fst (Properties s))) \<and>
         items genRand n2 v = Inr (its, n'))) \<and>
   docTemplate genRand n grp ver knd (JSONSchemaProps d t r e lo hi ps x it) =
   docTemplate genRand n grp ver knd (JSONSchemaProps d t r e lo hi ps None it) \<and>
   inline_schema genRand n (JSONSchemaProps d t r e lo hi ps x it) =
   inline_schema genRand n (JSONSchemaProps d t r e lo hi ps None it)"
proof (intro conjI impI)
  assume a: "iteration genRand n key v = Inr (p, n') \<and> AdditionalProperties v = Some ap"
  then obtain props n1 addl n2 its where
    pr: "properties genRand (Suc n) v = Inr (props, n1)" and
    ad: "additionalProperties genRand n1 v = Inr (addl, n2)" and
    it: "items genRand n2 v = Inr (its, n')" and
    p: "p = Panel key (genRand n) (scalars v @ props @ addl @ its)"
    by (auto simp: iteration.simps split: sum.splits prod.splits)
  show "\<exists>props sub its n1 n2.
         p = Panel key (genRand n)
               (scalars v @ props
                @ (if Allows ap then [AdditionalPropertiesAllowed] else [])
                @ (case BoolSchema ap of
                     None \<Rightarrow> []
                   | Some s \<Rightarrow> [Paragraph (Description s), TypeLabel (Type s)])
                @ sub @ its) \<and>
         properties genRand (Suc n) v = Inr (props, n1) \<and>
         (case BoolSchema ap of
            None \<Rightarrow> sub = [] \<and> n2 = n1
          | Some s \<Rightarrow>
              properties genRand n1 s = Inr (sub, n2) \<and>
              list_all is_Panel sub \<and> map panel_key sub = sort (map fst (Properties s))) \<and>
         items genRand n2 v = Inr (its, n')"
  proof (cases "BoolSchema ap")
    case None
    with a ad have "addl = (if Allows ap then [AdditionalPropertiesAllowed] else [])"
      and "n2 = n1"
      by (auto simp: additionalProperties.simps)
    with None pr it p show ?thesis by auto
  next
    case (Some s)
    with a ad obtain sub where sub: "properties genRand n1 s = Inr (sub, n2)"
      and addl: "addl = (if Allows ap then [AdditionalPropertiesAllowed] else [])
                 @ [Paragraph (Description s), TypeLabel (Type s)] @ sub"
      by (auto simp: additionalProperties.simps inline_schema.simps
          split: sum.splits prod.splits)
    from properties_keys [OF sub] Some pr it p sub addl show ?thesis by auto
  qed
next
  show "docTemplate genRand n grp ver knd (JSONSchemaProps d t r e lo hi ps x it) =
   docTemplate genRand n grp ver knd (JSONSchemaProps d t r e lo hi ps None it)"
    by (simp add: docTemplate_def properties.simps split: sum.splits)
next
  show "inline_schema genRand n (JSONSchemaProps d t r e lo hi ps x it) =
   inline_schema genRand n (JSONSchemaProps d t r e lo hi ps None it)"
    by (simp add: inline_schema.simps properties.simps split: sum.splits)
qed

text \<open>An object whose further values are objects with the property "x".\<close>

definition labels :: JSONSchemaProps where
  "labels = JSONSchemaProps [] ''object'' [] [] None None []
     (Some (JSONSchemaPropsOrBool True (Some (object [(''x'', typed ''string'')])))) None"

theorem additionalProperties_block_witness:
  "iteration sample_genRand 0 ''labels'' labels =
     Inr (Panel ''labels'' ''bcdfghjklb''
           [Paragraph [], TypeLabel ''object'', AdditionalPropertiesAllowed,
            Paragraph [], TypeLabel ''object'',
            Panel ''x'' ''bcdfghjklc'' [Paragraph [], TypeLabel ''string'']], 2) \<and>
   AdditionalProperties labels =
     Some (JSONSchemaPropsOrBool True (Some (object [(''x'', typed ''string'')]))) \<and>
   (\<exists>props sub its n1 n2.
      Panel ''labels'' ''bcdfghjklb''
           [Paragraph [], TypeLabel ''object'', AdditionalPropertiesAllowed,
            Paragraph [], TypeLabel ''object'',
            Panel ''x'' ''bcdfghjklc'' [Paragraph [], TypeLabel ''string'']] =
      Panel ''labels'' (sample_genRand 0)
        (scalars labels @ props @ [AdditionalPropertiesAllowed]
         @ [Paragraph (Description (object [(''x'', typed ''string'')])),
            TypeLabel (Type (object [(''x'', typed ''string'')]))]
         @ sub @ its) \<and>
      properties sample_genRand (Suc 0) labels = Inr (props, n1) \<and>
      properties sample_genRand n1 (object [(''x'', typed ''string'')]) = Inr (sub, n2) \<and>
      list_all is_Panel sub \<and>
      map panel_key sub = sort (map fst (Properties (object [(''x'', typed ''string'')]))) \<and>
      items sample_genRand n2 labels = Inr (its, 2))"
proof -
  have run: "iteration sample_genRand 0 ''labels'' labels =
     Inr (Panel ''labels'' ''bcdfghjklb''
           [Paragraph [], TypeLabel ''object'', AdditionalPropertiesAllowed,
            Paragraph [], TypeLabel ''object'',
            Panel ''x'' ''bcdfghjklc'' [Paragraph [], TypeLabel ''string'']], 2)"
    by (simp add: labels_def eval_simps)
  have ap: "AdditionalProperties labels =
     Some (JSONSchemaPropsOrBool True (Some (object [(''x'', typed ''string'')])))"
    by (simp add: labels_def)
  from additionalProperties_block [of sample_genRand 0 "''labels''" labels
      "Panel ''labels'' ''bcdfghjklb''
           [Paragraph [], TypeLabel ''object'', AdditionalPropertiesAllowed,
            Paragraph [], TypeLabel ''object'',
            Panel ''x'' ''bcdfghjklc'' [Paragraph [], TypeLabel ''string'']]" 2
      "JSONSchemaPropsOrBool True (Some (object [(''x'', typed ''string'')]))"] run ap
  show ?thesis by simp
qed

end
